theory Spec2Isabelle
  imports
    Complex_Main
    "HOL-Library.Product_Lexorder"
    "HOL-Library.Option_ord"
    "HOL-Library.Multiset"
begin

section \<open>Data model\<close>

text \<open>
  The program is a PySpark script (\<^verbatim>\<open>danaelbaba.py\<close>). A DataFrame is modelled as its
  rows in their physical order, together with the names of the double columns that
  \<^verbatim>\<open>withColumn\<close> has added to the eight columns of the schema. Doubles are idealised as
  real numbers (no rounding); SQL NULL is \<open>None\<close>. A calendar date is the triple
  (year, month, day), ordered lexicographically, which is the chronological order.
\<close>

type_synonym date = "int \<times> int \<times> int"

text \<open>The eight columns of \<^verbatim>\<open>schema\<close>, and the values of the added columns by name.\<close>

record row =
  Date :: "date option"
  Adj_Close :: "real option"
  Close :: "real option"
  High :: "real option"
  Low :: "real option"
  Open :: "real option"
  Volume :: "real option"
  Stock :: string
  extra :: "string \<Rightarrow> real option"

record dataframe =
  columns :: "string list"
  rows :: "row list"

text \<open>One line of a per-symbol CSV file as read with the schema: it has no symbol yet.\<close>

record csv_row =
  csv_Date :: "date option"
  csv_Adj_Close :: "real option"
  csv_Close :: "real option"
  csv_High :: "real option"
  csv_Low :: "real option"
  csv_Open :: "real option"
  csv_Volume :: "real option"

text \<open>
  The exceptions the script can end in: Python's ValueError with its message, Spark's
  AnalysisException and IllegalArgumentException. \<open>Unmodelled_cast\<close> marks the one request
  whose result the model does not give: an average over the string column Stock, which
  Spark computes after casting each symbol to a double.
\<close>

datatype error =
  ValueError string
  | AnalysisException
  | IllegalArgumentException
  | Unmodelled_cast

section \<open>Dataset Builder\<close>

text \<open>\<^verbatim>\<open>df = spark.read.csv(..., schema=schema); df = df.withColumn("Stock", lit(stock))\<close>\<close>

definition read_csv_with_Stock :: "string \<Rightarrow> csv_row list \<Rightarrow> row list" where
  "read_csv_with_Stock stock csv =
     map (\<lambda>c. \<lparr>Date = csv_Date c, Adj_Close = csv_Adj_Close c, Close = csv_Close c,
               High = csv_High c, Low = csv_Low c, Open = csv_Open c,
               Volume = csv_Volume c, Stock = stock, extra = (\<lambda>_. None)\<rparr>) csv"

text \<open>The loop \<^verbatim>\<open>combined_df = combined_df.union(df)\<close> over the symbols.\<close>

definition union_all :: "(string \<times> csv_row list) list \<Rightarrow> dataframe" where
  "union_all sources =
     \<lparr>columns = [], rows = concat (map (\<lambda>(stock, csv). read_csv_with_Stock stock csv) sources)\<rparr>"

text \<open>\<^verbatim>\<open>to_date(col("Date"), "yyyy-MM-dd")\<close> on a column that is a date already.\<close>

definition to_date :: "dataframe \<Rightarrow> dataframe" where
  "to_date df = df\<lparr>rows := map (\<lambda>r. r\<lparr>Date := Date r\<rparr>) (rows df)\<rparr>"

text \<open>
  \<^verbatim>\<open>dropna()\<close>: a row stays when none of the DataFrame's columns is null in it. (Spark
  drops a row for a NaN as well; the reals have none.)
\<close>

definition no_null :: "string list \<Rightarrow> row \<Rightarrow> bool" where
  "no_null cols r \<longleftrightarrow>
     Date r \<noteq> None \<and> Adj_Close r \<noteq> None \<and> Close r \<noteq> None \<and> High r \<noteq> None \<and>
     Low r \<noteq> None \<and> Open r \<noteq> None \<and> Volume r \<noteq> None \<and>
     list_all (\<lambda>c. extra r c \<noteq> None) cols"

definition dropna :: "dataframe \<Rightarrow> dataframe" where
  "dropna df = df\<lparr>rows := filter (no_null (columns df)) (rows df)\<rparr>"

definition build_dataset :: "(string \<times> csv_row list) list \<Rightarrow> dataframe" where
  "build_dataset sources = dropna (to_date (union_all sources))"

section \<open>Null-propagating column arithmetic\<close>

text \<open>
  Spark SQL arithmetic on nullable doubles: a null operand gives null, and a division
  by zero gives null (the default, non-ANSI mode).
\<close>

definition sub_null :: "real option \<Rightarrow> real option \<Rightarrow> real option" where
  "sub_null a b = (case (a, b) of (Some x, Some y) \<Rightarrow> Some (x - y) | _ \<Rightarrow> None)"

definition div_null :: "real option \<Rightarrow> real option \<Rightarrow> real option" where
  "div_null a b =
     (case (a, b) of (Some x, Some y) \<Rightarrow> if y = 0 then None else Some (x / y) | _ \<Rightarrow> None)"

definition mul_null :: "real option \<Rightarrow> real option \<Rightarrow> real option" where
  "mul_null a b = (case (a, b) of (Some x, Some y) \<Rightarrow> Some (x * y) | _ \<Rightarrow> None)"

text \<open>\<^verbatim>\<open>year("Date")\<close>, \<^verbatim>\<open>month("Date")\<close>: null for a null date.\<close>

definition year :: "date option \<Rightarrow> int option" where
  "year d = map_option fst d"

definition month :: "date option \<Rightarrow> int option" where
  "month d = map_option (\<lambda>t. fst (snd t)) d"

section \<open>Period Aggregator\<close>

text \<open>
  \<^verbatim>\<open>first("Close")\<close> and \<^verbatim>\<open>last("Close")\<close> of a group: the value in the first and in the
  last row of the group, in the order in which the rows stand in the DataFrame (nulls are
  not skipped).
\<close>

definition first :: "'a option list \<Rightarrow> 'a option" where
  "first vs = (case vs of [] \<Rightarrow> None | v # _ \<Rightarrow> v)"

definition last_value :: "'a option list \<Rightarrow> 'a option" where
  "last_value vs = (case rev vs of [] \<Rightarrow> None | v # _ \<Rightarrow> v)"

record 'k return_row =
  group_key :: 'k
  First_Close :: "real option"
  Last_Close :: "real option"
  Return_Rate :: "real option"

text \<open>
  \<^verbatim>\<open>groupBy(cols).agg(first("Close"), last("Close")).withColumn(rate, ((Last - First) / First) * 100)\<close>:
  one output row per distinct key. The groups come out in an order the model fixes (that
  of the last row of each group); Spark leaves it open.
\<close>

definition groupBy_return_rate :: "(row \<Rightarrow> 'k) \<Rightarrow> row list \<Rightarrow> 'k return_row list" where
  "groupBy_return_rate key rs =
     map (\<lambda>k. let closes = map Close (filter (\<lambda>r. key r = k) rs);
                 f = first closes;
                 l = last_value closes
             in \<lparr>group_key = k, First_Close = f, Last_Close = l,
                 Return_Rate = mul_null (div_null (sub_null l f) f) (Some 100)\<rparr>)
         (remdups (map key rs))"

text \<open>
  \<^verbatim>\<open>calculate_return_rate(df)\<close>: weekly, monthly and yearly return rates. The week number
  of a date, \<^verbatim>\<open>weekofyear\<close>, is a function of the Spark library and a parameter here.
\<close>

definition calculate_return_rate ::
  "(date \<Rightarrow> int) \<Rightarrow> dataframe \<Rightarrow>
     (string \<times> int option \<times> int option) return_row list \<times>
     (string \<times> int option \<times> int option) return_row list \<times>
     (string \<times> int option) return_row list" where
  "calculate_return_rate weekofyear df =
     (let weekly_return =
            groupBy_return_rate (\<lambda>r. (Stock r, year (Date r), map_option weekofyear (Date r))) (rows df);
          monthly_return =
            groupBy_return_rate (\<lambda>r. (Stock r, year (Date r), month (Date r))) (rows df);
          yearly_return =
            groupBy_return_rate (\<lambda>r. (Stock r, year (Date r))) (rows df)
      in (weekly_return, monthly_return, yearly_return))"

section \<open>Best-Performer Selector\<close>

text \<open>Python's \<^verbatim>\<open>str.split("-")\<close>: the pieces between the dashes, empty pieces included.\<close>

fun split_dash :: "string \<Rightarrow> string list" where
  "split_dash [] = [[]]"
| "split_dash (c # cs) =
     (if c = CHR ''-'' then [] # split_dash cs
      else (case split_dash cs of [] \<Rightarrow> [[c]] | p # ps \<Rightarrow> (c # p) # ps))"

text \<open>
  Python's \<^verbatim>\<open>int(s)\<close> on an ASCII string: surrounding whitespace is stripped, then an
  optional sign, then decimal digits, in which single underscores may stand between two
  digits. \<open>None\<close> is the ValueError.
\<close>

definition is_space :: "char \<Rightarrow> bool" where
  "is_space c = (let n = (of_char c :: nat) in (9 \<le> n \<and> n \<le> 13) \<or> (28 \<le> n \<and> n \<le> 32))"

definition is_digit :: "char \<Rightarrow> bool" where
  "is_digit c = (let n = (of_char c :: nat) in 48 \<le> n \<and> n \<le> 57)"

definition digit_value :: "char \<Rightarrow> int" where
  "digit_value c = int (of_char c) - 48"

definition strip :: "string \<Rightarrow> string" where
  "strip s = dropWhile is_space (rev (dropWhile is_space (rev s)))"

fun py_digits :: "int \<Rightarrow> string \<Rightarrow> int option" where
  "py_digits acc [] = Some acc"
| "py_digits acc [c] = (if is_digit c then Some (10 * acc + digit_value c) else None)"
| "py_digits acc (c # d # cs) =
     (if is_digit c then py_digits (10 * acc + digit_value c) (d # cs)
      else if c = CHR ''_'' \<and> is_digit d then py_digits (10 * acc + digit_value d) cs
      else None)"

definition py_unsigned :: "string \<Rightarrow> int option" where
  "py_unsigned s =
     (case s of [] \<Rightarrow> None
      | c # cs \<Rightarrow> if is_digit c then py_digits (digit_value c) cs else None)"

definition py_int :: "string \<Rightarrow> int option" where
  "py_int s =
     (case strip s of [] \<Rightarrow> None
      | c # cs \<Rightarrow>
          if c = CHR ''+'' then py_unsigned cs
          else if c = CHR ''-'' then map_option uminus (py_unsigned cs)
          else py_unsigned (c # cs))"

text \<open>
  \<^verbatim>\<open>start_year, start_month, _ = map(int, start_date.split("-"))\<close>. The map is lazy:
  the unpacking converts the pieces one by one, asks for a fourth one after the third,
  and raises ValueError at the first piece that is no integer, or for a wrong number of
  pieces. The messages are cut to their fixed parts.
\<close>

definition invalid_literal :: error where
  "invalid_literal = ValueError ''invalid literal for int() with base 10''"

definition not_enough_values :: error where
  "not_enough_values = ValueError ''not enough values to unpack (expected 3)''"

definition too_many_values :: error where
  "too_many_values = ValueError ''too many values to unpack (expected 3)''"

fun unpack3_ints :: "nat \<Rightarrow> string list \<Rightarrow> error + int list" where
  "unpack3_ints n [] = (if n < 3 then Inl not_enough_values else Inr [])"
| "unpack3_ints n (p # ps) =
     (case py_int p of
        None \<Rightarrow> Inl invalid_literal
      | Some v \<Rightarrow>
          if 3 \<le> n then Inl too_many_values
          else (case unpack3_ints (Suc n) ps of Inl e \<Rightarrow> Inl e | Inr vs \<Rightarrow> Inr (v # vs)))"

definition parse_start_date :: "string \<Rightarrow> error + (int \<times> int)" where
  "parse_start_date start_date =
     (case unpack3_ints 0 (split_dash start_date) of
        Inl e \<Rightarrow> Inl e
      | Inr vs \<Rightarrow> (case vs of [start_year, start_month, _] \<Rightarrow> Inr (start_year, start_month)
                  | _ \<Rightarrow> Inl not_enough_values))"

text \<open>
  \<^verbatim>\<open>orderBy(col("Return_Rate").desc())\<close>: descending, nulls last (null is the least
  value of \<open>real option\<close>), as a stable insertion sort; \<^verbatim>\<open>limit(1)\<close> keeps the first row.
\<close>

fun insort_desc :: "('a \<Rightarrow> real option) \<Rightarrow> 'a \<Rightarrow> 'a list \<Rightarrow> 'a list" where
  "insort_desc f x [] = [x]"
| "insort_desc f x (y # ys) = (if f y \<le> f x then x # y # ys else y # insort_desc f x ys)"

definition orderBy_desc :: "('a \<Rightarrow> real option) \<Rightarrow> 'a list \<Rightarrow> 'a list" where
  "orderBy_desc f xs = foldr (insort_desc f) xs []"

definition invalid_period :: error where
  "invalid_period = ValueError ''Invalid period. Choose 'month' or 'year'.''"

definition best_return_rate ::
  "dataframe \<Rightarrow> string \<Rightarrow> string \<Rightarrow> error + (string \<times> int option list) return_row list" where
  "best_return_rate df start_date period =
     (case parse_start_date start_date of
        Inl e \<Rightarrow> Inl e
      | Inr (start_year, start_month) \<Rightarrow>
          if period = ''month'' then
            (let filtered_df = filter (\<lambda>r. year (Date r) = Some start_year \<and>
                                            month (Date r) = Some start_month) (rows df);
                 return_rate_df =
                   groupBy_return_rate (\<lambda>r. (Stock r, [year (Date r), month (Date r)])) filtered_df
             in Inr (take 1 (orderBy_desc Return_Rate return_rate_df)))
          else if period = ''year'' then
            (let filtered_df = filter (\<lambda>r. year (Date r) = Some start_year) (rows df);
                 return_rate_df =
                   groupBy_return_rate (\<lambda>r. (Stock r, [year (Date r)])) filtered_df
             in Inr (take 1 (orderBy_desc Return_Rate return_rate_df)))
          else Inl invalid_period)"

section \<open>Window Aggregator\<close>

text \<open>
  \<^verbatim>\<open>window_spec = Window.partitionBy("Stock").orderBy("Date")\<close>: the rows of each symbol,
  each partition sorted by date (ascending, nulls first). The sort is stable, and the
  partitions follow each other in an order the model fixes; Spark leaves both open.
\<close>

definition partitionBy :: "('r \<Rightarrow> 'k) \<Rightarrow> 'r list \<Rightarrow> 'r list list" where
  "partitionBy key rs = map (\<lambda>k. filter (\<lambda>r. key r = k) rs) (remdups (map key rs))"

definition window_spec :: "row list \<Rightarrow> row list list" where
  "window_spec rs = map (sort_key Date) (partitionBy Stock rs)"

text \<open>\<^verbatim>\<open>lag(c)\<close> along an ordered partition: the value one row back, null in the first row.\<close>

definition lag :: "'a option list \<Rightarrow> 'a option list" where
  "lag vs = take (length vs) (None # vs)"

text \<open>\<^verbatim>\<open>avg\<close>/\<^verbatim>\<open>mean\<close>: the mean of the values that are not null, null when there is none.\<close>

definition non_null :: "'a option list \<Rightarrow> 'a list" where
  "non_null vs = concat (map (\<lambda>v. case v of None \<Rightarrow> [] | Some x \<Rightarrow> [x]) vs)"

definition avg :: "real option list \<Rightarrow> real option" where
  "avg vs = (let xs = non_null vs
             in if xs = [] then None else Some (sum_list xs / real (length xs)))"

text \<open>
  \<^verbatim>\<open>avg(c).over(window_spec.rowsBetween(lo, 0))\<close> along an ordered partition: row \<open>i\<close>
  averages the rows \<open>i + lo\<close> to \<open>i\<close> that exist.
\<close>

definition avg_rowsBetween :: "int \<Rightarrow> real option list \<Rightarrow> real option list" where
  "avg_rowsBetween lo vs =
     map (\<lambda>i. avg (drop (nat (int i + lo)) (take (Suc i) vs))) [0..<length vs]"

text \<open>
  \<^verbatim>\<open>withColumn(name, e)\<close>: the column is replaced when the DataFrame has one of that name
  and appended otherwise. With a window expression the rows come out partition by
  partition. Names are compared exactly (Spark's resolution ignores case), and none of the
  names the script adds is the name of a schema column.
\<close>

definition with_value :: "string \<Rightarrow> row \<Rightarrow> real option \<Rightarrow> row" where
  "with_value name r v = r\<lparr>extra := (extra r)(name := v)\<rparr>"

definition add_column :: "string \<Rightarrow> string list \<Rightarrow> string list" where
  "add_column name cols = (if name \<in> set cols then cols else cols @ [name])"

definition withColumn :: "string \<Rightarrow> (row \<Rightarrow> real option) \<Rightarrow> dataframe \<Rightarrow> dataframe" where
  "withColumn name e df =
     \<lparr>columns = add_column name (columns df),
      rows = map (\<lambda>r. with_value name r (e r)) (rows df)\<rparr>"

definition over_partition ::
  "string \<Rightarrow> (row list \<Rightarrow> real option list) \<Rightarrow> row list \<Rightarrow> row list" where
  "over_partition name w p = map2 (with_value name) p (w p)"

definition withColumn_over ::
  "string \<Rightarrow> (row list \<Rightarrow> real option list) \<Rightarrow> dataframe \<Rightarrow> dataframe" where
  "withColumn_over name w df =
     \<lparr>columns = add_column name (columns df),
      rows = concat (map (over_partition name w) (window_spec (rows df)))\<rparr>"

text \<open>
  Lines 83 to 87, "Add Calculated Columns":
  \<^verbatim>\<open>withColumn("Prev_Close", lag("Close").over(window_spec))\<close> and then
  \<^verbatim>\<open>withColumn("Daily_Return", (col("Close") - col("Prev_Close")) / col("Prev_Close"))\<close>.
\<close>

definition add_calculated_columns :: "dataframe \<Rightarrow> dataframe" where
  "add_calculated_columns df =
     withColumn ''Daily_Return''
       (\<lambda>r. div_null (sub_null (Close r) (extra r ''Prev_Close'')) (extra r ''Prev_Close''))
       (withColumn_over ''Prev_Close'' (\<lambda>p. lag (map Close p)) df)"

text \<open>
  Lines 93 to 95:
  \<^verbatim>\<open>withColumn("Moving_Avg_5", mean("Close").over(window_spec.rowsBetween(-4, 0)))\<close>.
\<close>

definition add_Moving_Avg_5 :: "dataframe \<Rightarrow> dataframe" where
  "add_Moving_Avg_5 df =
     withColumn_over ''Moving_Avg_5'' (\<lambda>p. avg_rowsBetween (- 4) (map Close p)) df"

definition window_aggregator :: "dataframe \<Rightarrow> dataframe" where
  "window_aggregator df = add_Moving_Avg_5 (add_calculated_columns df)"

text \<open>
  \<^verbatim>\<open>calculate_daily_return(df)\<close>:
  \<^verbatim>\<open>(col("Close") - lag("Close").over(window_spec)) / lag("Close").over(window_spec)\<close>.
\<close>

definition calculate_daily_return :: "dataframe \<Rightarrow> dataframe" where
  "calculate_daily_return df =
     withColumn_over ''Daily_Return''
       (\<lambda>p. map2 (\<lambda>c l. div_null (sub_null c l) l) (map Close p) (lag (map Close p))) df"

text \<open>
  A column name, resolved against a DataFrame: a double column (of the schema or added),
  the Date or the Stock column, or no column at all.
\<close>

datatype column = Double "row \<Rightarrow> real option" | Date_column | Stock_column | Unresolved

definition col :: "dataframe \<Rightarrow> string \<Rightarrow> column" where
  "col df name =
     (if name = ''Date'' then Date_column
      else if name = ''Adj Close'' then Double Adj_Close
      else if name = ''Close'' then Double Close
      else if name = ''High'' then Double High
      else if name = ''Low'' then Double Low
      else if name = ''Open'' then Double Open
      else if name = ''Volume'' then Double Volume
      else if name = ''Stock'' then Stock_column
      else if name \<in> set (columns df) then Double (\<lambda>r. extra r name)
      else Unresolved)"






section \<open>Correlation Engine\<close>

text \<open>
  A Python float as \<^verbatim>\<open>stat.corr\<close> returns it: a number or NaN.
\<close>

datatype pyfloat = Float real | NaN




definition mean_list :: "real list \<Rightarrow> real" where
  "mean_list xs = sum_list xs / real (length xs)"

definition Ck :: "(real \<times> real) list \<Rightarrow> real" where
  "Ck ps = (\<Sum>(x, y)\<leftarrow>ps. (x - mean_list (map fst ps)) * (y - mean_list (map snd ps)))"

definition Mk :: "real list \<Rightarrow> real" where
  "Mk xs = (\<Sum>x\<leftarrow>xs. (x - mean_list xs)\<^sup>2)"

definition pearson :: "(real \<times> real) list \<Rightarrow> pyfloat" where
  "pearson ps =
     (if Mk (map fst ps) * Mk (map snd ps) = 0 then NaN
      else Float (Ck ps / sqrt (Mk (map fst ps) * Mk (map snd ps))))"




section \<open>The stages of the Window Aggregator, partition by partition\<close>

text \<open>
  What lines 83 to 87 and lines 83 to 95 make of one ordered partition. The lemmas below
  show that the DataFrames the stages return are made of these.
\<close>

definition calculated_partition :: "row list \<Rightarrow> row list" where
  "calculated_partition p =
     map (\<lambda>r. with_value ''Daily_Return'' r
                 (div_null (sub_null (Close r) (extra r ''Prev_Close'')) (extra r ''Prev_Close'')))
         (over_partition ''Prev_Close'' (\<lambda>p. lag (map Close p)) p)"

definition aggregated_partition :: "row list \<Rightarrow> row list" where
  "aggregated_partition p =
     over_partition ''Moving_Avg_5'' (\<lambda>p. avg_rowsBetween (- 4) (map Close p))
       (calculated_partition p)"

section \<open>Example data\<close>

text \<open>A row whose price columns all hold the given close, for the concrete examples below.\<close>

definition price_row :: "string \<Rightarrow> date \<Rightarrow> real \<Rightarrow> row" where
  "price_row s d c =
     \<lparr>Date = Some d, Adj_Close = Some c, Close = Some c, High = Some c, Low = Some c,
      Open = Some c, Volume = Some 1000, Stock = s, extra = (\<lambda>_. None)\<rparr>"

text \<open>
  A table as an uploaded CSV file may hold it: the two AAPL rows of January 2020 stand
  in the file with the later date first.
\<close>

definition unsorted_df :: dataframe where
  "unsorted_df =
     \<lparr>columns = [],
      rows = [price_row ''AAPL'' (2020, 1, 3) 20, price_row ''AAPL'' (2020, 1, 2) 10,
              price_row ''MSFT'' (2020, 1, 2) 10, price_row ''MSFT'' (2020, 1, 7) 11]\<rparr>"

text \<open>Three days of AAPL and of MSFT, the rows of the two symbols interleaved and out of order.\<close>

definition example_df :: dataframe where
  "example_df =
     \<lparr>columns = [],
      rows = [price_row ''AAPL'' (2020, 1, 3) 11, price_row ''MSFT'' (2020, 1, 2) 50,
              price_row ''AAPL'' (2020, 1, 2) 10, price_row ''AAPL'' (2020, 1, 6) 9,
              price_row ''MSFT'' (2020, 1, 3) 51, price_row ''MSFT'' (2020, 1, 6) 50]\<rparr>"


definition csv_with_null_Adj_Close :: "(string \<times> csv_row list) list" where
  "csv_with_null_Adj_Close =
     [(''AAPL'',
       [\<lparr>csv_Date = Some (2020, 1, 2), csv_Adj_Close = None, csv_Close = Some 10,
          csv_High = Some 11, csv_Low = Some 9, csv_Open = Some 10, csv_Volume = Some 5\<rparr>,
        \<lparr>csv_Date = Some (2020, 1, 3), csv_Adj_Close = Some 10, csv_Close = Some 10,
          csv_High = Some 11, csv_Low = Some 9, csv_Open = Some 10, csv_Volume = Some 5\<rparr>])]"

section \<open>Dataset Builder: properties\<close>

lemma rows_build_dataset:
  "rows (build_dataset sources) = filter (no_null []) (rows (union_all sources))"
  by (simp add: build_dataset_def dropna_def to_date_def union_all_def)

lemma columns_build_dataset: "columns (build_dataset sources) = []"
  by (simp add: build_dataset_def dropna_def to_date_def union_all_def)

text \<open>
  C9. The null-row removal of the Dataset Builder keeps exactly the rows without a null
  in any of the schema's columns, the Adj Close column included: a row whose Adj Close is
  null is absent from the built Dataset whatever its other fields hold, and no row of the
  built Dataset has a null in any column.
\<close>

theorem dropna_drops_any_null:
  "rows (build_dataset sources) = filter (no_null []) (rows (union_all sources)) \<and>
   columns (build_dataset sources) = [] \<and>
   (\<forall>r. Adj_Close r = None \<longrightarrow> r \<notin> set (rows (build_dataset sources))) \<and>
   (\<forall>r \<in> set (rows (build_dataset sources)).
      Date r \<noteq> None \<and> Adj_Close r \<noteq> None \<and> Close r \<noteq> None \<and> High r \<noteq> None \<and>
      Low r \<noteq> None \<and> Open r \<noteq> None \<and> Volume r \<noteq> None)"
  by (auto simp: rows_build_dataset columns_build_dataset no_null_def)

text \<open>
  Of the two AAPL lines, the one of 2 January is complete but for its Adj Close: only the
  line of 3 January reaches the Dataset.
\<close>

theorem dropna_drops_any_null_witness:
  "rows (build_dataset csv_with_null_Adj_Close) =
     [\<lparr>Date = Some (2020, 1, 3), Adj_Close = Some 10, Close = Some 10, High = Some 11,
       Low = Some 9, Open = Some 10, Volume = Some 5, Stock = ''AAPL'', extra = (\<lambda>_. None)\<rparr>] \<and>
   \<lparr>Date = Some (2020, 1, 2), Adj_Close = None, Close = Some 10, High = Some 11,
     Low = Some 9, Open = Some 10, Volume = Some 5, Stock = ''AAPL'', extra = (\<lambda>_. None)\<rparr>
     \<in> set (rows (union_all csv_with_null_Adj_Close)) - set (rows (build_dataset csv_with_null_Adj_Close))"
  using dropna_drops_any_null [of csv_with_null_Adj_Close]
  by (simp add: csv_with_null_Adj_Close_def union_all_def read_csv_with_Stock_def no_null_def)

section \<open>Window Aggregator: the shape of the output\<close>

lemma remdups_all_same: "xs \<noteq> [] \<Longrightarrow> set xs \<subseteq> {a} \<Longrightarrow> remdups xs = [a]"
proof (induction xs)
  case Nil
  then show ?case by simp
next
  case (Cons x xs)
  show ?case
  proof (cases "xs = []")
    case True
    with Cons.prems show ?thesis by simp
  next
    case False
    with Cons have "remdups xs = [a]" "x = a" by simp_all
    moreover from False Cons.prems have "a \<in> set xs"
      by (cases xs) simp_all
    ultimately show ?thesis by simp
  qed
qed

lemma remdups_append_disjoint:
  "set xs \<inter> set ys = {} \<Longrightarrow> remdups (xs @ ys) = remdups xs @ remdups ys"
  by (induction xs) auto

lemma filter_concat_groups:
  "distinct ks \<Longrightarrow> \<forall>j\<in>set ks. \<forall>r\<in>set (G j). key r = j \<Longrightarrow>
   filter (\<lambda>r. key r = k) (concat (map G ks)) = (if k \<in> set ks then G k else [])"
proof (induction ks)
  case Nil
  then show ?case by simp
next
  case (Cons a ks)
  show ?case
  proof (cases "a = k")
    case True
    with Cons.prems have "filter (\<lambda>r. key r = k) (G a) = G k" by (auto simp: filter_id_conv)
    moreover from True Cons.prems Cons.IH have "filter (\<lambda>r. key r = k) (concat (map G ks)) = []"
      by auto
    ultimately show ?thesis using True by simp
  next
    case False
    with Cons.prems have "filter (\<lambda>r. key r = k) (G a) = []" by (auto simp: filter_empty_conv)
    with False Cons show ?thesis by auto
  qed
qed

lemma remdups_keys_concat_groups:
  "distinct ks \<Longrightarrow> \<forall>j\<in>set ks. G j \<noteq> [] \<and> (\<forall>r\<in>set (G j). key r = j) \<Longrightarrow>
   remdups (map key (concat (map G ks))) = ks"
proof (induction ks)
  case Nil
  then show ?case by simp
next
  case (Cons a ks)
  have a: "remdups (map key (G a)) = [a]"
    using Cons.prems by (intro remdups_all_same) auto
  have "a \<notin> set (map key (concat (map G ks)))"
    using Cons.prems by auto
  then have "set (map key (G a)) \<inter> set (map key (concat (map G ks))) = {}"
    using Cons.prems by auto
  then have "remdups (map key (G a) @ map key (concat (map G ks))) =
        remdups (map key (G a)) @ remdups (map key (concat (map G ks)))"
    by (rule remdups_append_disjoint)
  with a Cons show ?case by simp
qed

lemma partitionBy_concat_groups:
  assumes "distinct ks" and "\<forall>j\<in>set ks. G j \<noteq> [] \<and> (\<forall>r\<in>set (G j). key r = j)"
  shows "partitionBy key (concat (map G ks)) = map G ks"
proof -
  have "map (\<lambda>k. filter (\<lambda>r. key r = k) (concat (map G ks))) ks = map G ks"
    using assms by (intro map_cong refl) (simp add: filter_concat_groups)
  then show ?thesis
    using assms by (simp add: partitionBy_def remdups_keys_concat_groups)
qed

lemma Stock_with_value [simp]: "Stock (with_value name r v) = Stock r"
  and Date_with_value [simp]: "Date (with_value name r v) = Date r"
  and Close_with_value [simp]: "Close (with_value name r v) = Close r"
  by (simp_all add: with_value_def)

lemma length_over_partition: "length (w p) = length p \<Longrightarrow> length (over_partition name w p) = length p"
  by (simp add: over_partition_def)

lemma map_over_partition:
  assumes "length (w p) = length p" and "\<And>r v. f (with_value name r v) = f r"
  shows "map f (over_partition name w p) = map f p"
  using assms by (auto simp: over_partition_def intro!: nth_equalityI)

lemma set_over_partition:
  "x \<in> set (over_partition name w p) \<Longrightarrow> \<exists>r\<in>set p. \<exists>v. x = with_value name r v"
proof -
  assume "x \<in> set (over_partition name w p)"
  then obtain r v where "(r, v) \<in> set (zip p (w p))" "x = with_value name r v"
    by (auto simp: over_partition_def)
  then show ?thesis
    using set_zip_leftD [of r v p "w p"] by blast
qed

text \<open>The ordered partitions as a list indexed by the symbols.\<close>

lemma window_spec_alt:
  "window_spec rs = map (\<lambda>k. sort_key Date (filter (\<lambda>r. Stock r = k) rs)) (remdups (map Stock rs))"
  by (simp add: window_spec_def partitionBy_def)

lemma window_spec_groups:
  assumes "distinct ks"
    and "\<forall>j\<in>set ks. G j \<noteq> [] \<and> (\<forall>r\<in>set (G j). Stock r = j) \<and> sorted (map Date (G j))"
  shows "window_spec (concat (map G ks)) = map G ks"
proof -
  have "partitionBy Stock (concat (map G ks)) = map G ks"
    using assms by (intro partitionBy_concat_groups) auto
  moreover have "map (sort_key Date) (map G ks) = map G ks"
    using assms by (auto simp: sort_key_id_if_sorted intro!: map_idI)
  ultimately show ?thesis by (simp add: window_spec_def)
qed

lemma window_spec_withColumn_over:
  assumes "\<And>p. length (w p) = length p"
  shows "window_spec (rows (withColumn_over name w df)) =
         map (over_partition name w) (window_spec (rows df))"
proof -
  define ks where "ks = remdups (map Stock (rows df))"
  define P where "P = (\<lambda>k. sort_key Date (filter (\<lambda>r. Stock r = k) (rows df)))"
  define G where "G = (\<lambda>k. over_partition name w (P k))"
  have spec: "window_spec (rows df) = map P ks"
    by (simp add: window_spec_alt ks_def P_def)
  have out: "rows (withColumn_over name w df) = concat (map G ks)"
    by (simp add: withColumn_over_def spec G_def o_def)
  have "\<forall>j\<in>set ks. G j \<noteq> [] \<and> (\<forall>r\<in>set (G j). Stock r = j) \<and> sorted (map Date (G j))"
  proof (rule ballI, intro conjI)
    fix j assume "j \<in> set ks"
    then have "filter (\<lambda>r. Stock r = j) (rows df) \<noteq> []"
      by (auto simp: filter_empty_conv ks_def)
    then have "length (P j) \<noteq> 0" by (simp add: P_def)
    then have "length (G j) \<noteq> 0" using assms by (simp add: length_over_partition G_def)
    then show "G j \<noteq> []" by auto
    have "\<forall>r\<in>set (P j). Stock r = j" by (simp add: P_def)
    then show "\<forall>r\<in>set (G j). Stock r = j"
      unfolding G_def by (auto dest!: set_over_partition)
    have "map Date (G j) = map Date (P j)"
      unfolding G_def using assms by (intro map_over_partition) auto
    then show "sorted (map Date (G j))" by (simp add: sorted_sort_key P_def)
  qed
  moreover have "distinct ks" by (simp add: ks_def)
  ultimately have "window_spec (concat (map G ks)) = map G ks"
    by (intro window_spec_groups)
  also have "map G ks = map (over_partition name w) (map P ks)"
    by (simp add: G_def)
  finally show ?thesis
    by (simp only: out spec)
qed

lemma insort_key_map_same:
  assumes "\<And>r. key (f r) = key r"
  shows "insort_key key (f x) (map f ys) = map f (insort_key key x ys)"
  by (induction ys) (auto simp: assms)

lemma sort_key_map_same:
  assumes "\<And>r. key (f r) = key r"
  shows "sort_key key (map f xs) = map f (sort_key key xs)"
  by (induction xs) (simp_all add: insort_key_map_same [of key f, OF assms])

lemma window_spec_map:
  assumes "\<And>r. Stock (f r) = Stock r" and "\<And>r. Date (f r) = Date r"
  shows "window_spec (map f rs) = map (map f) (window_spec rs)"
proof -
  have "filter (\<lambda>r. Stock r = k) (map f rs) = map f (filter (\<lambda>r. Stock r = k) rs)" for k
    by (simp add: filter_map o_def assms)
  then show ?thesis
    by (simp add: window_spec_alt o_def assms sort_key_map_same [of Date f, OF assms(2)])
qed

lemma rows_withColumn_over:
  "rows (withColumn_over name w df) = concat (map (over_partition name w) (window_spec (rows df)))"
  by (simp add: withColumn_over_def)

lemma window_spec_withColumn:
  "window_spec (rows (withColumn name e df)) =
   map (map (\<lambda>r. with_value name r (e r))) (window_spec (rows df))"
  by (simp add: withColumn_def window_spec_map)

lemma length_lag [simp]: "length (lag vs) = length vs"
  by (simp add: lag_def)

lemma length_avg_rowsBetween [simp]: "length (avg_rowsBetween lo vs) = length vs"
  by (simp add: avg_rowsBetween_def)

lemma rows_add_calculated_columns:
  "rows (add_calculated_columns df) = concat (map calculated_partition (window_spec (rows df)))"
  by (simp add: add_calculated_columns_def withColumn_def rows_withColumn_over map_concat
      calculated_partition_def [symmetric] o_def)

lemma window_spec_add_calculated_columns:
  "window_spec (rows (add_calculated_columns df)) =
   map calculated_partition (window_spec (rows df))"
  by (simp add: add_calculated_columns_def window_spec_withColumn window_spec_withColumn_over
      calculated_partition_def [symmetric] o_def)

lemma rows_window_aggregator:
  "rows (window_aggregator df) = concat (map aggregated_partition (window_spec (rows df)))"
  by (simp add: window_aggregator_def add_Moving_Avg_5_def rows_withColumn_over
      window_spec_add_calculated_columns aggregated_partition_def [symmetric] o_def)

lemma window_spec_window_aggregator:
  "window_spec (rows (window_aggregator df)) =
   map aggregated_partition (window_spec (rows df))"
  by (simp add: window_aggregator_def add_Moving_Avg_5_def window_spec_withColumn_over
      window_spec_add_calculated_columns aggregated_partition_def [symmetric] o_def)

lemma length_calculated_partition [simp]: "length (calculated_partition p) = length p"
  by (simp add: calculated_partition_def over_partition_def)

lemma length_aggregated_partition [simp]: "length (aggregated_partition p) = length p"
  by (simp add: aggregated_partition_def over_partition_def)

lemma nth_lag: "i < length vs \<Longrightarrow> lag vs ! i = (case i of 0 \<Rightarrow> None | Suc j \<Rightarrow> vs ! j)"
  by (simp add: lag_def split: nat.splits)

lemma nth_calculated_partition:
  assumes "i < length p"
  shows "calculated_partition p ! i =
         (let l = lag (map Close p) ! i
          in with_value ''Daily_Return'' (with_value ''Prev_Close'' (p ! i) l)
               (div_null (sub_null (Close (p ! i)) l) l))"
  using assms by (simp add: calculated_partition_def over_partition_def with_value_def Let_def)

lemma nth_aggregated_partition:
  assumes "i < length p"
  shows "aggregated_partition p ! i =
         with_value ''Moving_Avg_5'' (calculated_partition p ! i)
           (avg_rowsBetween (- 4) (map Close (calculated_partition p)) ! i)"
  using assms by (simp add: aggregated_partition_def over_partition_def)

lemma map_Close_calculated_partition [simp]:
  "map Close (calculated_partition p) = map Close p"
  by (rule nth_equalityI) (simp_all add: nth_calculated_partition Let_def)

lemma map_Close_aggregated_partition [simp]:
  "map Close (aggregated_partition p) = map Close p"
proof (rule nth_equalityI)
  show "length (map Close (aggregated_partition p)) = length (map Close p)" by simp
  fix i assume "i < length (map Close (aggregated_partition p))"
  then have i: "i < length p" by simp
  then have "Close (aggregated_partition p ! i) = Close (calculated_partition p ! i)"
    by (simp add: nth_aggregated_partition)
  also have "\<dots> = Close (p ! i)"
    using i by (simp add: nth_calculated_partition Let_def)
  finally show "map Close (aggregated_partition p) ! i = map Close p ! i"
    using i by simp
qed

lemma with_value_twice [simp]:
  "with_value name (with_value name r u) v = with_value name r v"
  by (simp add: with_value_def)

lemma with_value_same: "extra r name = v \<Longrightarrow> with_value name r v = r"
  by (auto simp: with_value_def)

lemma extra_with_value:
  "extra (with_value name r v) c = (if c = name then v else extra r c)"
  by (simp add: with_value_def)

lemma calculated_partition_aggregated:
  "calculated_partition (aggregated_partition p) = aggregated_partition p"
proof (rule nth_equalityI)
  show "length (calculated_partition (aggregated_partition p)) = length (aggregated_partition p)"
    by simp
  fix i assume "i < length (calculated_partition (aggregated_partition p))"
  then have i: "i < length p" by simp
  then show "calculated_partition (aggregated_partition p) ! i = aggregated_partition p ! i"
    by (simp add: nth_calculated_partition nth_aggregated_partition Let_def with_value_def
        fun_upd_twist)
qed

lemma aggregated_partition_idem:
  "aggregated_partition (aggregated_partition p) = aggregated_partition p"
proof (rule nth_equalityI)
  show "length (aggregated_partition (aggregated_partition p)) = length (aggregated_partition p)"
    by simp
  fix i assume "i < length (aggregated_partition (aggregated_partition p))"
  then have i: "i < length p" by simp
  then show "aggregated_partition (aggregated_partition p) ! i = aggregated_partition p ! i"
    by (simp add: nth_aggregated_partition [of i "aggregated_partition p"]
        calculated_partition_aggregated)
       (simp add: nth_aggregated_partition with_value_def)
qed

lemma add_column_idem [simp]: "add_column name (add_column name cols) = add_column name cols"
  by (simp add: add_column_def)

lemma columns_window_aggregator:
  "columns (window_aggregator df) =
   add_column ''Moving_Avg_5'' (add_column ''Daily_Return'' (add_column ''Prev_Close'' (columns df)))"
  by (simp add: window_aggregator_def add_Moving_Avg_5_def add_calculated_columns_def
      withColumn_over_def withColumn_def)

lemma add_column_mem: "c \<in> set cols \<Longrightarrow> add_column c cols = cols"
  by (simp add: add_column_def)

lemma set_add_column [simp]: "set (add_column c cols) = insert c (set cols)"
  by (auto simp: add_column_def)

lemma columns_window_aggregator_idem:
  "columns (window_aggregator (window_aggregator df)) = columns (window_aggregator df)"
  by (simp add: columns_window_aggregator [of "window_aggregator df"] add_column_mem)
     (simp add: columns_window_aggregator add_column_mem)

lemma daily_return_aggregated_partition:
  "over_partition ''Daily_Return''
     (\<lambda>p. map2 (\<lambda>c l. div_null (sub_null c l) l) (map Close p) (lag (map Close p)))
     (aggregated_partition p) = aggregated_partition p"
proof (rule nth_equalityI)
  show "length (over_partition ''Daily_Return''
     (\<lambda>p. map2 (\<lambda>c l. div_null (sub_null c l) l) (map Close p) (lag (map Close p)))
     (aggregated_partition p)) = length (aggregated_partition p)"
    by (simp add: over_partition_def)
  fix i assume "i < length (over_partition ''Daily_Return''
     (\<lambda>p. map2 (\<lambda>c l. div_null (sub_null c l) l) (map Close p) (lag (map Close p)))
     (aggregated_partition p))"
  then have i: "i < length p" by (simp add: over_partition_def)
  then have "Close (aggregated_partition p ! i) = Close (p ! i)"
    using map_Close_aggregated_partition [of p]
    by (metis length_aggregated_partition nth_map)
  with i show "over_partition ''Daily_Return''
     (\<lambda>p. map2 (\<lambda>c l. div_null (sub_null c l) l) (map Close p) (lag (map Close p)))
     (aggregated_partition p) ! i = aggregated_partition p ! i"
    by (simp add: over_partition_def nth_aggregated_partition nth_calculated_partition Let_def
        with_value_def fun_upd_twist)
qed

lemma filter_Stock_window:
  assumes "\<And>p r. r \<in> set (T p) \<Longrightarrow> \<exists>q\<in>set p. Stock r = Stock q"
  shows "filter (\<lambda>r. Stock r = s) (concat (map T (window_spec rs))) =
         T (sort_key Date (filter (\<lambda>r. Stock r = s) rs))"
proof -
  define ks where "ks = remdups (map Stock rs)"
  define P where "P = (\<lambda>k. sort_key Date (filter (\<lambda>r. Stock r = k) rs))"
  have spec: "window_spec rs = map P ks"
    by (simp add: window_spec_alt ks_def P_def)
  have "\<forall>j\<in>set ks. \<forall>r\<in>set (T (P j)). Stock r = j"
  proof (intro ballI)
    fix j r assume "r \<in> set (T (P j))"
    then obtain q where "q \<in> set (P j)" "Stock r = Stock q"
      using assms by blast
    then show "Stock r = j" by (simp add: P_def)
  qed
  moreover have "distinct ks" by (simp add: ks_def)
  ultimately have "filter (\<lambda>r. Stock r = s) (concat (map (\<lambda>k. T (P k)) ks)) =
      (if s \<in> set ks then T (P s) else [])"
    by (rule filter_concat_groups [where G = "\<lambda>k. T (P k)" and key = Stock, rotated])
  moreover have "T (P s) = []" if "s \<notin> set ks"
  proof -
    from that have "filter (\<lambda>r. Stock r = s) rs = []"
      by (auto simp: ks_def filter_empty_conv)
    then have "P s = []" by (simp add: P_def)
    moreover have "T [] = []"
    proof (cases "T []")
      case (Cons r rest)
      then have "r \<in> set (T [])" by simp
      then show ?thesis using assms [of r "[]"] by simp
    qed simp
    ultimately show ?thesis by simp
  qed
  ultimately show ?thesis
    by (simp add: spec o_def P_def)
qed

lemma Stock_calculated_partition:
  assumes "r \<in> set (calculated_partition p)"
  shows "\<exists>q\<in>set p. Stock r = Stock q \<and> Close r = Close q \<and> Date r = Date q"
proof -
  from assms obtain i where i: "i < length p" "r = calculated_partition p ! i"
    by (metis in_set_conv_nth length_calculated_partition)
  then have "Stock r = Stock (p ! i) \<and> Close r = Close (p ! i) \<and> Date r = Date (p ! i)"
    by (simp add: nth_calculated_partition Let_def)
  with i show ?thesis by auto
qed

lemma filter_Stock_add_calculated_columns:
  "filter (\<lambda>r. Stock r = s) (rows (add_calculated_columns df)) =
   calculated_partition (sort_key Date (filter (\<lambda>r. Stock r = s) (rows df)))"
  unfolding rows_add_calculated_columns
  by (rule filter_Stock_window) (use Stock_calculated_partition in blast)

lemma set_window_spec: "p \<in> set (window_spec rs) \<Longrightarrow> set p \<subseteq> set rs"
  by (auto simp: window_spec_alt)

lemma Daily_Return_calculated_partition:
  assumes "r \<in> set (calculated_partition p)"
  shows "extra r ''Daily_Return'' =
         div_null (sub_null (Close r) (extra r ''Prev_Close'')) (extra r ''Prev_Close'')"
proof -
  from assms obtain i where i: "i < length p" "r = calculated_partition p ! i"
    by (metis in_set_conv_nth length_calculated_partition)
  then show ?thesis
    by (simp add: nth_calculated_partition Let_def with_value_def)
qed

lemma map_Date_calculated_partition [simp]:
  "map Date (calculated_partition p) = map Date p"
  by (rule nth_equalityI) (simp_all add: nth_calculated_partition Let_def)

lemma non_null_map_Some [simp]: "non_null (map Some xs) = xs"
  by (induction xs) (simp_all add: non_null_def)






lemmas eval_window =
  window_spec_def partitionBy_def over_partition_def with_value_def add_column_def
  withColumn_def withColumn_over_def lag_def avg_def non_null_def avg_rowsBetween_def
  div_null_def sub_null_def price_row_def less_eq_option_def less_eq_prod_def Let_def

lemma avg_singleton [simp]: "avg [v] = v"
  by (cases v) (simp_all add: avg_def non_null_def)


text \<open>The built Dataset has no null in a column that resolves: the hypotheses of C4 and C5 hold on it.\<close>

lemma build_dataset_no_null:
  assumes "col (build_dataset sources) name = Double c"
    and "r \<in> set (rows (build_dataset sources))"
  shows "c r \<noteq> None"
proof -
  from assms(2) have "no_null [] r" by (simp add: rows_build_dataset)
  moreover from assms(1) have "c = Adj_Close \<or> c = Close \<or> c = High \<or> c = Low \<or> c = Open \<or> c = Volume"
    by (auto simp: col_def columns_build_dataset split: if_splits)
  ultimately show ?thesis by (auto simp: no_null_def)
qed

section \<open>Window Aggregator: properties\<close>

text \<open>
  C8. The Window Aggregator is idempotent: run on its own output, the computation of
  Prev_Close, Daily_Return and Moving_Avg_5 returns that output unchanged, and so does
  \<^verbatim>\<open>calculate_daily_return\<close>. (The model sorts stably; rows of one symbol with equal
  dates keep their order.)
\<close>

theorem window_aggregator_idempotent:
  "window_aggregator (window_aggregator df) = window_aggregator df \<and>
   calculate_daily_return (window_aggregator df) = window_aggregator df"
proof
  have "rows (window_aggregator (window_aggregator df)) = rows (window_aggregator df)"
    by (simp add: rows_window_aggregator [of "window_aggregator df"]
        window_spec_window_aggregator o_def aggregated_partition_idem)
       (simp add: rows_window_aggregator)
  then show "window_aggregator (window_aggregator df) = window_aggregator df"
    using columns_window_aggregator_idem by (intro dataframe.equality) simp_all
  have "rows (calculate_daily_return (window_aggregator df)) = rows (window_aggregator df)"
    by (simp add: calculate_daily_return_def rows_withColumn_over window_spec_window_aggregator
        o_def daily_return_aggregated_partition)
       (simp add: rows_window_aggregator)
  moreover have "columns (calculate_daily_return (window_aggregator df)) =
      columns (window_aggregator df)"
    by (simp add: calculate_daily_return_def withColumn_over_def columns_window_aggregator
        add_column_mem)
  ultimately show "calculate_daily_return (window_aggregator df) = window_aggregator df"
    by (intro dataframe.equality) simp_all
qed

theorem window_aggregator_idempotent_witness:
  "window_aggregator (window_aggregator example_df) = window_aggregator example_df \<and>
   calculate_daily_return (window_aggregator example_df) = window_aggregator example_df \<and>
   map (\<lambda>r. (Stock r, Date r, extra r ''Prev_Close'', extra r ''Moving_Avg_5''))
     (rows (window_aggregator example_df)) =
     [(''AAPL'', Some (2020, 1, 2), None, Some 10),
      (''AAPL'', Some (2020, 1, 3), Some 10, Some (21 / 2)),
      (''AAPL'', Some (2020, 1, 6), Some 11, Some 10),
      (''MSFT'', Some (2020, 1, 2), None, Some 50),
      (''MSFT'', Some (2020, 1, 3), Some 50, Some (101 / 2)),
      (''MSFT'', Some (2020, 1, 6), Some 51, Some (151 / 3))]"
proof -
  have "map (\<lambda>r. (Stock r, Date r, extra r ''Prev_Close'', extra r ''Moving_Avg_5''))
     (rows (window_aggregator example_df)) =
     [(''AAPL'', Some (2020, 1, 2), None, Some 10),
      (''AAPL'', Some (2020, 1, 3), Some 10, Some (21 / 2)),
      (''AAPL'', Some (2020, 1, 6), Some 11, Some 10),
      (''MSFT'', Some (2020, 1, 2), None, Some 50),
      (''MSFT'', Some (2020, 1, 3), Some 50, Some (101 / 2)),
      (''MSFT'', Some (2020, 1, 6), Some 51, Some (151 / 3))]"
    by (simp add: window_aggregator_def add_Moving_Avg_5_def add_calculated_columns_def
        example_df_def eval_window upt_rec [of _ "numeral _"] upt_rec [of 0 "Suc _"])
  with window_aggregator_idempotent [of example_df] show ?thesis by simp
qed

text \<open>
  C4. In the table with the calculated columns, the rows of a symbol form its partition
  in date order. The first row of the partition has a null Prev_Close and a null
  Daily_Return, and every later row has the close of the row before it as Prev_Close. On
  every row (the built Dataset has no null close, \<open>build_dataset_no_null\<close>), Daily_Return is
  null exactly when Prev_Close is null or zero, and is (Close - Prev_Close) / Prev_Close
  otherwise.
\<close>

theorem Prev_Close_Daily_Return:
  assumes "\<forall>r\<in>set (rows df). Close r \<noteq> None"
  shows "(let part = filter (\<lambda>r. Stock r = s) (rows (add_calculated_columns df))
          in sorted (map Date part) \<and>
             map Close part = map Close (sort_key Date (filter (\<lambda>r. Stock r = s) (rows df))) \<and>
             (part \<noteq> [] \<longrightarrow> extra (hd part) ''Prev_Close'' = None \<and>
                              extra (hd part) ''Daily_Return'' = None) \<and>
             (\<forall>i. Suc i < length part \<longrightarrow>
                  extra (part ! Suc i) ''Prev_Close'' = Close (part ! i))) \<and>
         (\<forall>r\<in>set (rows (add_calculated_columns df)).
            (extra r ''Daily_Return'' = None \<longleftrightarrow>
               extra r ''Prev_Close'' = None \<or> extra r ''Prev_Close'' = Some 0) \<and>
            (\<forall>c p. Close r = Some c \<and> extra r ''Prev_Close'' = Some p \<and> p \<noteq> 0 \<longrightarrow>
                   extra r ''Daily_Return'' = Some ((c - p) / p)))"
proof -
  define P where "P = sort_key Date (filter (\<lambda>r. Stock r = s) (rows df))"
  define part where "part = filter (\<lambda>r. Stock r = s) (rows (add_calculated_columns df))"
  have part: "part = calculated_partition P"
    by (simp add: part_def P_def filter_Stock_add_calculated_columns)
  have sorted: "sorted (map Date part)"
    by (simp add: part P_def sorted_sort_key)
  have closes: "map Close part = map Close P"
    by (simp add: part)
  have first: "extra (hd part) ''Prev_Close'' = None \<and> extra (hd part) ''Daily_Return'' = None"
    if "part \<noteq> []"
  proof -
    from that have "calculated_partition P \<noteq> []" by (simp add: part)
    then have "P \<noteq> []" by (metis length_calculated_partition length_0_conv)
    then have "0 < length P" by simp
    then have "part ! 0 = (let l = None in with_value ''Daily_Return''
        (with_value ''Prev_Close'' (P ! 0) l) (div_null (sub_null (Close (P ! 0)) l) l))"
      by (simp add: part nth_calculated_partition nth_lag)
    moreover from that have "hd part = part ! 0" by (simp add: hd_conv_nth)
    ultimately show ?thesis
      by (simp add: with_value_def div_null_def sub_null_def split: option.splits)
  qed
  have prev: "extra (part ! Suc i) ''Prev_Close'' = Close (part ! i)" if "Suc i < length part" for i
  proof -
    from that have i: "Suc i < length P" by (simp add: part)
    then have "extra (part ! Suc i) ''Prev_Close'' = Close (P ! i)"
      by (simp add: part nth_calculated_partition nth_lag Let_def with_value_def)
    also have "\<dots> = Close (part ! i)"
      using i by (simp add: part nth_calculated_partition Let_def)
    finally show ?thesis .
  qed
  have daily: "(extra r ''Daily_Return'' = None \<longleftrightarrow>
               extra r ''Prev_Close'' = None \<or> extra r ''Prev_Close'' = Some 0) \<and>
            (\<forall>c p. Close r = Some c \<and> extra r ''Prev_Close'' = Some p \<and> p \<noteq> 0 \<longrightarrow>
                   extra r ''Daily_Return'' = Some ((c - p) / p))"
    if "r \<in> set (rows (add_calculated_columns df))" for r
  proof -
    from that obtain p where p: "p \<in> set (window_spec (rows df))" "r \<in> set (calculated_partition p)"
      by (auto simp: rows_add_calculated_columns)
    then obtain q where "q \<in> set p" "Close r = Close q"
      using Stock_calculated_partition by blast
    with p assms have "Close r \<noteq> None"
      using set_window_spec by fastforce
    then show ?thesis
      using Daily_Return_calculated_partition [OF p(2)]
      by (auto simp: div_null_def sub_null_def split: option.splits)
  qed
  from sorted closes first prev daily show ?thesis
    unfolding part_def [symmetric] P_def [symmetric] Let_def by blast
qed

theorem Prev_Close_Daily_Return_witness:
  "list_all (\<lambda>r. Close r \<noteq> None) (rows example_df) \<and>
   sorted (map Date (filter (\<lambda>r. Stock r = ''AAPL'') (rows (add_calculated_columns example_df)))) \<and>
   map (\<lambda>r. (Date r, Close r, extra r ''Prev_Close'', extra r ''Daily_Return''))
     (filter (\<lambda>r. Stock r = ''AAPL'') (rows (add_calculated_columns example_df))) =
     [(Some (2020, 1, 2), Some 10, None, None),
      (Some (2020, 1, 3), Some 11, Some 10, Some (1 / 10)),
      (Some (2020, 1, 6), Some 9, Some 11, Some (- (2 / 11)))]"
proof -
  have n: "\<forall>r\<in>set (rows example_df). Close r \<noteq> None"
    by (simp add: example_df_def price_row_def)
  have "map (\<lambda>r. (Date r, Close r, extra r ''Prev_Close'', extra r ''Daily_Return''))
     (filter (\<lambda>r. Stock r = ''AAPL'') (rows (add_calculated_columns example_df))) =
     [(Some (2020, 1, 2), Some 10, None, None),
      (Some (2020, 1, 3), Some 11, Some 10, Some (1 / 10)),
      (Some (2020, 1, 6), Some 9, Some 11, Some (- (2 / 11)))]"
    by (simp add: add_calculated_columns_def example_df_def eval_window)
  with n Prev_Close_Daily_Return [OF n, of "''AAPL''"] show ?thesis
    by (simp add: list_all_iff Let_def)
qed



section \<open>Correlation Engine: properties\<close>

lemma sum_list_square_combination:
  fixes f g :: "'a \<Rightarrow> real"
  shows "(\<Sum>p\<leftarrow>ps. (f p * c - g p * d)\<^sup>2) =
         c\<^sup>2 * (\<Sum>p\<leftarrow>ps. (f p)\<^sup>2) - 2 * c * d * (\<Sum>p\<leftarrow>ps. f p * g p) + d\<^sup>2 * (\<Sum>p\<leftarrow>ps. (g p)\<^sup>2)"
  by (induction ps) (simp_all add: power2_eq_square algebra_simps)

lemma cauchy_schwarz_list:
  fixes f g :: "'a \<Rightarrow> real"
  shows "(\<Sum>p\<leftarrow>ps. f p * g p)\<^sup>2 \<le> (\<Sum>p\<leftarrow>ps. (f p)\<^sup>2) * (\<Sum>p\<leftarrow>ps. (g p)\<^sup>2)"
proof -
  define A where "A = (\<Sum>p\<leftarrow>ps. (f p)\<^sup>2)"
  define B where "B = (\<Sum>p\<leftarrow>ps. (g p)\<^sup>2)"
  define C where "C = (\<Sum>p\<leftarrow>ps. f p * g p)"
  have A0: "0 \<le> A" unfolding A_def by (rule sum_list_nonneg) auto
  have "0 \<le> (\<Sum>p\<leftarrow>ps. (f p * C - g p * A)\<^sup>2)"
    by (rule sum_list_nonneg) auto
  also have "\<dots> = C\<^sup>2 * A - 2 * C * A * C + A\<^sup>2 * B"
    unfolding A_def B_def C_def by (rule sum_list_square_combination)
  also have "\<dots> = A * (A * B - C\<^sup>2)"
    by (simp add: power2_eq_square algebra_simps)
  finally have nonneg: "0 \<le> A * (A * B - C\<^sup>2)" .
  show ?thesis
  proof (cases "A = 0")
    case True
    then have "\<forall>x\<in>set (map (\<lambda>p. (f p)\<^sup>2) ps). x = 0"
      unfolding A_def by (subst (asm) sum_list_nonneg_eq_0_iff) auto
    then have "\<forall>p\<in>set ps. f p = 0" by auto
    then have m: "map (\<lambda>p. f p * g p) ps = map (\<lambda>p. 0) ps" by (intro map_cong) auto
    have "C = sum_list (map (\<lambda>p. 0) ps)" unfolding C_def by (simp only: m)
    then have "C = 0" by simp
    with True show ?thesis
      by (simp add: A_def [symmetric] B_def [symmetric] C_def [symmetric])
  next
    case False
    with A0 have "0 < A" by simp
    with nonneg have "0 \<le> A * B - C\<^sup>2"
      by (simp add: zero_le_mult_iff)
    then show ?thesis
      by (simp add: A_def [symmetric] B_def [symmetric] C_def [symmetric])
  qed
qed


lemma Mk_fst: "Mk (map fst ps) = (\<Sum>p\<leftarrow>ps. (fst p - mean_list (map fst ps))\<^sup>2)"
  and Mk_snd: "Mk (map snd ps) = (\<Sum>p\<leftarrow>ps. (snd p - mean_list (map snd ps))\<^sup>2)"
  by (simp_all add: Mk_def o_def)

lemma Ck_alt:
  "Ck ps = (\<Sum>p\<leftarrow>ps. (fst p - mean_list (map fst ps)) * (snd p - mean_list (map snd ps)))"
  by (simp add: Ck_def case_prod_unfold)

lemma Ck_square_le: "(Ck ps)\<^sup>2 \<le> Mk (map fst ps) * Mk (map snd ps)"
  unfolding Ck_alt Mk_fst Mk_snd by (rule cauchy_schwarz_list)




text \<open>The sum of the squared deviations is zero exactly for a constant series.\<close>

lemma Mk_eq_0_iff: "Mk xs = 0 \<longleftrightarrow> (\<forall>x\<in>set xs. x = mean_list xs)"
proof -
  have "Mk xs = 0 \<longleftrightarrow> (\<forall>v\<in>set (map (\<lambda>x. (x - mean_list xs)\<^sup>2) xs). v = 0)"
    unfolding Mk_def by (rule sum_list_nonneg_eq_0_iff) auto
  then show ?thesis by auto
qed












text \<open>
  Where the denominator of the coefficient is zero, so is its numerator: the double
  division is 0/0 there, never a division of a non-zero number by zero.
\<close>

lemma Ck_zero_if_degenerate:
  assumes "Mk (map fst ps) * Mk (map snd ps) = 0"
  shows "Ck ps = 0"
proof -
  from Ck_square_le [of ps] assms have "(Ck ps)\<^sup>2 \<le> 0" by simp
  then show ?thesis by simp
qed

text \<open>
  The scenario of the specification: closes 100, 102, 101, 105 against 50, 51, 50.5, 52
  correlate with a coefficient above 0.9.
\<close>

lemma pearson_scenario:
  "\<exists>v. pearson [(100, 50), (102, 51), (101, 101 / 2), (105, 52)] = Float v \<and> 9 / 10 < v"
proof -
  have mk: "Mk [100, 102, 101, 105] = 14" "Mk [50, 51, 101 / 2, 52] = 35 / 16"
    by (simp_all add: Mk_def mean_list_def power2_eq_square)
  have ck: "Ck [(100, 50), (102, 51), (101, 101 / 2), (105, 52)] = 11 / 2"
    by (simp add: Ck_def mean_list_def)
  have "sqrt (14 * (35 / 16)) < 6"
    by (rule real_less_lsqrt) simp_all
  then have "9 / 10 < (11 / 2) / sqrt (14 * (35 / 16))"
    by (simp add: pos_less_divide_eq)
  moreover have "pearson [(100, 50), (102, 51), (101, 101 / 2), (105, 52)] =
      Float ((11 / 2) / sqrt (14 * (35 / 16)))"
    unfolding pearson_def list.map fst_conv snd_conv mk ck by simp
  ultimately show ?thesis by blast
qed






section \<open>Period Aggregator: properties\<close>

lemmas eval_return_rate =
  groupBy_return_rate_def year_def month_def first_def last_value_def
  mul_null_def div_null_def sub_null_def Let_def

lemmas eval_py_int =
  py_int_def py_unsigned_def strip_def is_space_def is_digit_def digit_value_def

lemma Stock_aggregated_partition:
  assumes "r \<in> set (aggregated_partition p)"
  shows "\<exists>q\<in>set p. Stock r = Stock q"
proof -
  from assms obtain i where i: "i < length p" "r = aggregated_partition p ! i"
    by (metis in_set_conv_nth length_aggregated_partition)
  then have "Stock r = Stock (p ! i)"
    by (simp add: nth_aggregated_partition nth_calculated_partition Let_def)
  with i show ?thesis by auto
qed

lemma filter_Stock_window_aggregator:
  "filter (\<lambda>r. Stock r = s) (rows (window_aggregator df)) =
   aggregated_partition (sort_key Date (filter (\<lambda>r. Stock r = s) (rows df)))"
  unfolding rows_window_aggregator
  by (rule filter_Stock_window) (use Stock_aggregated_partition in blast)

lemma map_Date_aggregated_partition [simp]:
  "map Date (aggregated_partition p) = map Date p"
  by (rule nth_equalityI)
     (simp_all add: nth_aggregated_partition nth_calculated_partition Let_def)

text \<open>
  After the Window Aggregator the rows of every group of the Period Aggregator stand in
  date order, whatever the order of the rows before it was.
\<close>

lemma groups_sorted_after_window_aggregator:
  "sorted (map Date (filter (\<lambda>r. (Stock r, h (Date r)) = (s, v)) (rows (window_aggregator df))))"
proof -
  have "filter (\<lambda>r. (Stock r, h (Date r)) = (s, v)) (rows (window_aggregator df)) =
        filter (\<lambda>r. h (Date r) = v) (filter (\<lambda>r. Stock r = s) (rows (window_aggregator df)))"
    by (simp add: conj_commute)
  moreover have "sorted (map Date (filter (\<lambda>r. Stock r = s) (rows (window_aggregator df))))"
    by (simp add: filter_Stock_window_aggregator sorted_sort_key)
  ultimately show ?thesis
    by (simp only: sorted_filter)
qed

text \<open>
  Where the rows of a group stand in date order, the first and the last close of the
  group are those of its earliest and of its latest date.
\<close>

lemma first_last_chronological_if_sorted:
  assumes "g \<noteq> []" and "sorted (map Date g)"
  shows "first (map Close g) = Close (hd g) \<and> last_value (map Close g) = Close (last g) \<and>
         (\<forall>r\<in>set g. Date (hd g) \<le> Date r \<and> Date r \<le> Date (last g))"
proof -
  have f: "first (map Close g) = Close (hd g)"
    using assms(1) by (cases g) (simp_all add: first_def)
  have l: "last_value (map Close g) = Close (last g)"
    using assms(1) by (cases g rule: rev_cases) (simp_all add: last_value_def)
  have lo: "Date (hd g) \<le> Date r" if "r \<in> set g" for r
    using assms that by (cases g) auto
  have hi: "Date r \<le> Date (last g)" if "r \<in> set g" for r
    using assms that by (cases g rule: rev_cases) (auto simp: sorted_append)
  from f l lo hi show ?thesis by blast
qed

lemma groupBy_return_rate_row:
  assumes "k \<in> set (map key rs)"
  shows "\<lparr>group_key = k,
          First_Close = first (map Close (filter (\<lambda>r. key r = k) rs)),
          Last_Close = last_value (map Close (filter (\<lambda>r. key r = k) rs)),
          Return_Rate =
            mul_null
              (div_null
                (sub_null (last_value (map Close (filter (\<lambda>r. key r = k) rs)))
                          (first (map Close (filter (\<lambda>r. key r = k) rs))))
                (first (map Close (filter (\<lambda>r. key r = k) rs))))
              (Some 100)\<rparr>
         \<in> set (groupBy_return_rate key rs)"
  using assms by (auto simp: groupBy_return_rate_def Let_def image_iff)

text \<open>
  C1. The first and the last close of a group are those of the first and of the last row
  of the group as the rows stand in the table: neither \<^verbatim>\<open>calculate_return_rate\<close> nor
  \<^verbatim>\<open>best_return_rate\<close> sorts by date. They are the chronologically first and last closes
  on a table that has passed the Window Aggregator (the two lemmas above), as the
  script's own \<^verbatim>\<open>combined_df\<close> has, and not in general. On \<open>unsorted_df\<close> the closes of
  AAPL in January 2020 are 10 and then 20 in date order, a rise of 100 per cent; the code
  reports first 20, last 10 and a rate of -50, and names MSFT, with 10 per cent, the best
  performer of the month.
\<close>

theorem return_rate_first_last_in_row_order:
  "map Close (sort_key Date (filter (\<lambda>r. Stock r = ''AAPL'') (rows unsorted_df))) =
     [Some 10, Some 20] \<and>
   fst (snd (calculate_return_rate weekofyear unsorted_df)) =
     [\<lparr>group_key = (''AAPL'', Some 2020, Some 1), First_Close = Some 20,
        Last_Close = Some 10, Return_Rate = Some (- 50)\<rparr>,
      \<lparr>group_key = (''MSFT'', Some 2020, Some 1), First_Close = Some 10,
        Last_Close = Some 11, Return_Rate = Some 10\<rparr>] \<and>
   best_return_rate unsorted_df ''2020-01-01'' ''month'' =
     Inr [\<lparr>group_key = (''MSFT'', [Some 2020, Some 1]), First_Close = Some 10,
            Last_Close = Some 11, Return_Rate = Some 10\<rparr>]"
proof -
  have chronological:
    "map Close (sort_key Date (filter (\<lambda>r. Stock r = ''AAPL'') (rows unsorted_df))) =
       [Some 10, Some 20]"
    by (simp add: unsorted_df_def price_row_def less_eq_option_def less_eq_prod_def)
  have monthly:
    "fst (snd (calculate_return_rate weekofyear unsorted_df)) =
       [\<lparr>group_key = (''AAPL'', Some 2020, Some 1), First_Close = Some 20,
          Last_Close = Some 10, Return_Rate = Some (- 50)\<rparr>,
        \<lparr>group_key = (''MSFT'', Some 2020, Some 1), First_Close = Some 10,
          Last_Close = Some 11, Return_Rate = Some 10\<rparr>]"
    by (simp add: calculate_return_rate_def unsorted_df_def price_row_def eval_return_rate)
  have best:
    "best_return_rate unsorted_df ''2020-01-01'' ''month'' =
       Inr [\<lparr>group_key = (''MSFT'', [Some 2020, Some 1]), First_Close = Some 10,
              Last_Close = Some 11, Return_Rate = Some 10\<rparr>]"
    by (simp add: best_return_rate_def parse_start_date_def eval_py_int unsorted_df_def
        price_row_def eval_return_rate orderBy_desc_def less_eq_option_def)
  from chronological monthly best show ?thesis by simp
qed

section \<open>Best-Performer Selector: properties\<close>

lemma unpack3_ints_error:
  "unpack3_ints n ps = Inl e \<Longrightarrow> \<exists>msg. e = ValueError msg"
  by (induction n ps arbitrary: e rule: unpack3_ints.induct)
     (auto simp: not_enough_values_def invalid_literal_def too_many_values_def
           split: if_splits option.splits sum.splits)

lemma parse_start_date_error:
  "parse_start_date sd = Inl e \<Longrightarrow> \<exists>msg. e = ValueError msg"
  by (auto simp: parse_start_date_def not_enough_values_def
           split: sum.splits list.splits dest: unpack3_ints_error)





text \<open>
  C6. For a period that is neither "month" nor "year", \<^verbatim>\<open>best_return_rate\<close> raises
  ValueError whatever the table and the start date are, and returns no row: when the
  start date parses, the error is the one of the \<^verbatim>\<open>else\<close> branch, "Invalid period".
\<close>

theorem best_return_rate_invalid_period:
  assumes "period \<noteq> ''month''" and "period \<noteq> ''year''"
  shows "(\<exists>msg. best_return_rate df start_date period = Inl (ValueError msg)) \<and>
         (\<forall>y m. parse_start_date start_date = Inr (y, m) \<longrightarrow>
                 best_return_rate df start_date period = Inl invalid_period)"
proof (cases "parse_start_date start_date")
  case (Inl e)
  then obtain msg where "e = ValueError msg"
    using parse_start_date_error by blast
  with Inl show ?thesis
    by (simp add: best_return_rate_def)
next
  case (Inr p)
  with assms show ?thesis
    by (cases p) (simp add: best_return_rate_def invalid_period_def)
qed

theorem best_return_rate_invalid_period_witness:
  "''quarter'' \<noteq> ''month'' \<and> ''quarter'' \<noteq> ''year'' \<and>
   parse_start_date ''2020-01-01'' = Inr (2020, 1) \<and>
   best_return_rate unsorted_df ''2020-01-01'' ''quarter'' = Inl invalid_period"
proof -
  have p: "parse_start_date ''2020-01-01'' = Inr (2020, 1)"
    by (simp add: parse_start_date_def eval_py_int)
  have q: "''quarter'' \<noteq> ''month''" "''quarter'' \<noteq> ''year''"
    by simp_all
  from best_return_rate_invalid_period [OF q, of unsorted_df "''2020-01-01''"] p q
  show ?thesis by simp
qed



end
